theory Spec2Isabelle
  imports Main "HOL-Library.Word"
begin

section \<open>Task adaptors of the thread pool (boost/threadpool/task_adaptors.hpp)\<close>

text \<open>
  The header defines three class templates over a result type \<open>Signature\<close>:
  \<open>task_functor\<close>, and its two subclasses \<open>priority_task_functor\<close> and
  \<open>looped_task_functor\<close>. Each holds a \<open>boost::function<Signature(void)>\<close>.
  The embedding keeps the result type as the type variable \<open>'r\<close>, the failures a
  callable may raise as \<open>'e\<close>, and everything a callable can read or write as \<open>'s\<close>.
\<close>

subsection \<open>Primitive types\<close>

text \<open>\<open>unsigned int\<close> is a 32-bit word: \<open>+\<close>, \<open>-\<close>, \<open>*\<close> wrap, \<open>div\<close> and \<open><\<close> are unsigned.\<close>

type_synonym u32 = "32 word"

text \<open>
  The expression \<open>Signature()\<close> of the default arguments is the value-initialised
  result: \<open>false\<close> for \<open>bool\<close>, zero for the integer types, nothing for \<open>void\<close>
  (type \<open>unit\<close>, whose instance is the library's). It is the constant \<open>default\<close>
  of the type class of the same name.
\<close>

instantiation bool :: default
begin
definition default_bool_def: "default = False"
instance ..
end

instantiation int :: default
begin
definition default_int_def: "default = (0::int)"
instance ..
end

instantiation word :: (len) default
begin
definition default_word_def: "default = (0::'a word)"
instance ..
end

text \<open>
  The condition of \<open>while (this->task_function())\<close> converts the result to \<open>bool\<close>.
  For \<open>bool\<close>, the integer types and pointers that conversion is the comparison with
  the value-initialised result.
\<close>

definition truthy :: "'r::default \<Rightarrow> bool" where
  "truthy r = (r \<noteq> default)"

subsection \<open>Callables, the function object, and what a run can be seen to do\<close>

text \<open>
  A nullary callable runs on the environment and either returns a result (\<open>Inr\<close>) or
  raises a failure (\<open>Inl\<close>). A \<open>boost::function\<close> is empty or holds one callable as
  its target; a function object built from a lambda expression holds that lambda.
\<close>

type_synonym ('s, 'e, 'r) callable = "'s \<Rightarrow> ('e + 'r) \<times> 's"

datatype ('s, 'e, 'r) nullary_function =
    Empty_function
  | Target "('s, 'e, 'r) callable"

fun function_empty :: "('s, 'e, 'r) nullary_function \<Rightarrow> bool" where
  "function_empty Empty_function = True"
| "function_empty (Target f) = False"

text \<open>
  The events of a run, in the order they happen: an invocation of the held callable, a
  timed sleep asked for with a number of seconds and of nanoseconds, a processor yield.
\<close>

datatype event = Call | Sleep u32 u32 | Yield

record 's world =
  env :: 's
  events :: "event list"

definition function_call :: "('s, 'e, 'r) callable \<Rightarrow> 's world \<Rightarrow> ('e + 'r) \<times> 's world" where
  "function_call f w =
     (case f (env w) of (r, s') \<Rightarrow> (r, \<lparr>env = s', events = events w @ [Call]\<rparr>))"

text \<open>
  \<open>xtime_get(&xt, TIME_UTC_); xt.nsec += m_break_ns; xt.sec += m_break_s; thread::sleep(xt)\<close>
  asks for a sleep of the two break fields from now on; \<open>thread::yield()\<close> gives the
  processor away. Neither touches the environment of the callable.
\<close>

definition thread_sleep :: "u32 \<Rightarrow> u32 \<Rightarrow> 's world \<Rightarrow> 's world" where
  "thread_sleep s ns w = w\<lparr>events := events w @ [Sleep s ns]\<rparr>"

definition thread_yield :: "'s world \<Rightarrow> 's world" where
  "thread_yield w = w\<lparr>events := events w @ [Yield]\<rparr>"

text \<open>
  How a call of \<open>Signature operator()(void) const\<close> completes: with the value of a
  \<open>return\<close> statement, with a failure that leaves the body, or by reaching the closing
  brace with no \<open>return\<close> statement executed. The last is an ordinary return when
  \<open>Signature\<close> is \<open>void\<close>; for any other \<open>Signature\<close> the language defines no result.
\<close>

datatype ('e, 'r) completion = Returns 'r | Throws 'e | No_return_statement

text \<open>
  How a call of the looped \<open>void operator()(void) const\<close> completes: it returns, a
  failure leaves it, or the loop is still running when the fuel of the model is used up.
\<close>

datatype 'e looped_completion = Done | Failed 'e | Out_of_fuel

subsection \<open>task_functor\<close>

record ('s, 'e, 'r) task_functor =
  task_function :: "('s, 'e, 'r) nullary_function"

text \<open>The default argument \<open>[]() -> Signature { return Signature(); }\<close>.\<close>

definition default_function :: "('s, 'e, 'r::default) nullary_function" where
  "default_function = Target (\<lambda>s. (Inr default, s))"

definition task_functor_init :: "('s, 'e, 'r) nullary_function \<Rightarrow> ('s, 'e, 'r) task_functor" where
  "task_functor_init input_function = \<lparr>task_function = input_function\<rparr>"

definition task_functor_default :: "('s, 'e, 'r::default) task_functor" where
  "task_functor_default = task_functor_init default_function"

definition task_functor_empty :: "('s, 'e, 'r, 'z) task_functor_scheme \<Rightarrow> bool" where
  "task_functor_empty this = function_empty (task_function this)"

text \<open>
  The operators are \<open>const\<close>: the object comes back as it went in, next to the
  completion and the world after the call.
\<close>

definition task_functor_call ::
  "('s, 'e, 'r) task_functor \<Rightarrow> 's world
    \<Rightarrow> ('e, 'r) completion \<times> ('s, 'e, 'r) task_functor \<times> 's world" where
  "task_functor_call this w =
     (case task_function this of
        Target f \<Rightarrow>
          (case function_call f w of
             (Inr r, w') \<Rightarrow> (Returns r, this, w')
           | (Inl e, w') \<Rightarrow> (Throws e, this, w'))
      | Empty_function \<Rightarrow> (No_return_statement, this, w))"

subsection \<open>priority_task_functor\<close>

record ('s, 'e, 'r) priority_task_functor = "('s, 'e, 'r) task_functor" +
  m_priority :: u32

definition priority_task_functor_init ::
  "u32 \<Rightarrow> ('s, 'e, 'r) nullary_function \<Rightarrow> ('s, 'e, 'r) priority_task_functor" where
  "priority_task_functor_init priority input_function =
     \<lparr>task_function = task_function (task_functor_init input_function),
      m_priority = priority\<rparr>"

definition priority_task_functor_default :: "u32 \<Rightarrow> ('s, 'e, 'r::default) priority_task_functor" where
  "priority_task_functor_default priority = priority_task_functor_init priority default_function"

text \<open>The converting constructor from \<open>priority_task_functor<U>\<close>, \<open>U\<close> another result type.\<close>

definition priority_task_functor_convert ::
  "('s, 'e, 'u) priority_task_functor \<Rightarrow> ('s, 'e, 'r::default) priority_task_functor" where
  "priority_task_functor_convert input_reference =
     \<lparr>task_function = task_function (task_functor_default :: ('s, 'e, 'r) task_functor),
      m_priority = m_priority input_reference\<rparr>"

text \<open>The assignment from \<open>priority_task_functor<U>\<close>.\<close>

definition priority_task_functor_assign ::
  "('s, 'e, 'r) priority_task_functor \<Rightarrow> ('s, 'e, 'u) priority_task_functor
    \<Rightarrow> ('s, 'e, 'r) priority_task_functor" where
  "priority_task_functor_assign this input_reference =
     this\<lparr>m_priority := m_priority input_reference\<rparr>"

definition priority_task_functor_call ::
  "('s, 'e, 'r) priority_task_functor \<Rightarrow> 's world
    \<Rightarrow> ('e, 'r) completion \<times> ('s, 'e, 'r) priority_task_functor \<times> 's world" where
  "priority_task_functor_call this w =
     (case task_function this of
        Target f \<Rightarrow>
          (case function_call f w of
             (Inr r, w') \<Rightarrow> (Returns r, this, w')
           | (Inl e, w') \<Rightarrow> (Throws e, this, w'))
      | Empty_function \<Rightarrow> (No_return_statement, this, w))"

definition priority_task_functor_less ::
  "('s, 'e, 'r) priority_task_functor \<Rightarrow> ('s, 'e, 'r) priority_task_functor \<Rightarrow> bool" where
  "priority_task_functor_less this rhs = (m_priority this < m_priority rhs)"

subsection \<open>looped_task_functor\<close>

record ('s, 'e, 'r) looped_task_functor = "('s, 'e, 'r) task_functor" +
  m_break_s :: u32
  m_break_ns :: u32

definition looped_task_functor_init ::
  "('s, 'e, 'r) nullary_function \<Rightarrow> u32 \<Rightarrow> ('s, 'e, 'r) looped_task_functor" where
  "looped_task_functor_init input_function interval =
     (let break_s = interval div 1000;
          break_ns = (interval - break_s * 1000) * 1000 * 1000
      in \<lparr>task_function = task_function (task_functor_init input_function),
          m_break_s = break_s,
          m_break_ns = break_ns\<rparr>)"

definition looped_task_functor_default :: "('s, 'e, 'r::default) looped_task_functor" where
  "looped_task_functor_default = looped_task_functor_init default_function 0"

definition looped_task_functor_convert ::
  "('s, 'e, 'u) looped_task_functor \<Rightarrow> ('s, 'e, 'r::default) looped_task_functor" where
  "looped_task_functor_convert input_reference =
     \<lparr>task_function = task_function (task_functor_default :: ('s, 'e, 'r) task_functor),
      m_break_s = m_break_s input_reference,
      m_break_ns = m_break_ns input_reference\<rparr>"

definition looped_task_functor_assign ::
  "('s, 'e, 'r) looped_task_functor \<Rightarrow> ('s, 'e, 'u) looped_task_functor
    \<Rightarrow> ('s, 'e, 'r) looped_task_functor" where
  "looped_task_functor_assign this input_reference =
     (this\<lparr>m_break_ns := m_break_ns input_reference\<rparr>)\<lparr>m_break_s := m_break_s input_reference\<rparr>"

text \<open>
  The \<open>while\<close> loop. One unit of fuel pays for one evaluation of the loop condition,
  that is for one invocation of the callable; \<open>Out_of_fuel\<close> is a loop that has not left
  yet, with the world as far as it got.
\<close>

fun looped_while ::
  "nat \<Rightarrow> ('s, 'e, 'r::default) callable \<Rightarrow> u32 \<Rightarrow> u32 \<Rightarrow> 's world
    \<Rightarrow> 'e looped_completion \<times> 's world" where
  "looped_while 0 f break_s break_ns w = (Out_of_fuel, w)"
| "looped_while (Suc fuel) f break_s break_ns w =
     (case function_call f w of
        (Inl e, w') \<Rightarrow> (Failed e, w')
      | (Inr r, w') \<Rightarrow>
          if truthy r then
            looped_while fuel f break_s break_ns
              (if break_s > 0 \<or> break_ns > 0
               then thread_sleep break_s break_ns w'
               else thread_yield w')
          else (Done, w'))"

definition looped_task_functor_call ::
  "nat \<Rightarrow> ('s, 'e, 'r::default) looped_task_functor \<Rightarrow> 's world
    \<Rightarrow> 'e looped_completion \<times> ('s, 'e, 'r) looped_task_functor \<times> 's world" where
  "looped_task_functor_call fuel this w =
     (case task_function this of
        Target f \<Rightarrow>
          (case looped_while fuel f (m_break_s this) (m_break_ns this)
                  (if m_break_s this > 0 \<or> m_break_ns this > 0
                   then thread_sleep (m_break_s this) (m_break_ns this) w
                   else w) of
             (c, w') \<Rightarrow> (c, this, w'))
      | Empty_function \<Rightarrow> (Done, this, w))"

subsection \<open>Vocabulary of the properties\<close>

text \<open>The environment after \<open>n\<close> invocations of a callable, one after the other.\<close>

fun env_after :: "nat \<Rightarrow> ('s, 'e, 'r) callable \<Rightarrow> 's \<Rightarrow> 's" where
  "env_after 0 f s = s"
| "env_after (Suc n) f s = env_after n f (snd (f s))"

text \<open>From environment \<open>s\<close> on, the callable returns true exactly \<open>n\<close> times and then false.\<close>

fun returns_true_then_false :: "nat \<Rightarrow> ('s, 'e, 'r::default) callable \<Rightarrow> 's \<Rightarrow> bool" where
  "returns_true_then_false 0 f s =
     (case fst (f s) of Inr r \<Rightarrow> \<not> truthy r | Inl e \<Rightarrow> False)"
| "returns_true_then_false (Suc n) f s =
     (case fst (f s) of
        Inr r \<Rightarrow> truthy r \<and> returns_true_then_false n f (snd (f s))
      | Inl e \<Rightarrow> False)"

text \<open>From \<open>s\<close> on, the callable returns true exactly \<open>n\<close> times and then raises \<open>x\<close>.\<close>

fun returns_true_then_raises ::
  "nat \<Rightarrow> 'e \<Rightarrow> ('s, 'e, 'r::default) callable \<Rightarrow> 's \<Rightarrow> bool" where
  "returns_true_then_raises 0 x f s =
     (case fst (f s) of Inr r \<Rightarrow> False | Inl e \<Rightarrow> e = x)"
| "returns_true_then_raises (Suc n) x f s =
     (case fst (f s) of
        Inr r \<Rightarrow> truthy r \<and> returns_true_then_raises n x f (snd (f s))
      | Inl e \<Rightarrow> False)"

text \<open>From \<open>s\<close> on, every invocation of the callable returns, and returns true.\<close>

definition never_returns_false :: "('s, 'e, 'r::default) callable \<Rightarrow> 's \<Rightarrow> bool" where
  "never_returns_false f s =
     (\<forall>n. case fst (f (env_after n f s)) of Inr r \<Rightarrow> truthy r | Inl e \<Rightarrow> False)"

text \<open>The break the loop takes after an invocation that returned true.\<close>

definition break_event :: "u32 \<Rightarrow> u32 \<Rightarrow> event" where
  "break_event break_s break_ns =
     (if break_s > 0 \<or> break_ns > 0 then Sleep break_s break_ns else Yield)"

text \<open>
  A list of events in which the invocations are separated by exactly one break each:
  \<open>Call\<close>, break, \<open>Call\<close>, break, and so on, ending after either.
\<close>

fun breaks_between :: "event \<Rightarrow> event list \<Rightarrow> bool" where
  "breaks_between b [] = True"
| "breaks_between b [e] = (e = Call)"
| "breaks_between b (e # e' # es) = (e = Call \<and> e' = b \<and> breaks_between b es)"

definition is_sleep :: "event \<Rightarrow> bool" where
  "is_sleep e = (case e of Sleep s ns \<Rightarrow> True | _ \<Rightarrow> False)"

definition count_calls :: "event list \<Rightarrow> nat" where
  "count_calls es = length (filter (\<lambda>e. e = Call) es)"

subsection \<open>Sample callables\<close>

text \<open>A callable that counts its environment down to zero and says whether to go on.\<close>

definition countdown :: "(nat, string, bool) callable" where
  "countdown s = (if s = 0 then (Inr False, 0) else (Inr True, s - 1))"

text \<open>A callable that counts its invocations and always asks for another.\<close>

definition always_true :: "(nat, string, bool) callable" where
  "always_true s = (Inr True, Suc s)"

text \<open>A callable that counts down and raises once the counter is at zero.\<close>

definition fails_at_zero :: "(nat, string, bool) callable" where
  "fails_at_zero s = (if s = 0 then (Inl ''boom'', 0) else (Inr True, s - 1))"

section \<open>Properties\<close>

subsection \<open>The interval of a looped task\<close>

lemma looped_init_break_s: "m_break_s (looped_task_functor_init f interval) = interval div 1000"
  by (simp add: looped_task_functor_init_def Let_def)

lemma looped_init_break_ns:
  "m_break_ns (looped_task_functor_init f interval) = (interval mod 1000) * 1000000"
proof -
  have "interval - interval div 1000 * 1000 = interval mod 1000"
    by (rule minus_div_mult_eq_mod)
  then have "(interval - interval div 1000 * 1000) * 1000 * 1000 = (interval mod 1000) * 1000000"
    by (simp only: mult.assoc) simp
  then show ?thesis
    by (simp only: looped_task_functor_init_def Let_def looped_task_functor.simps)
qed

text \<open>The milliseconds left over are below 1000, so their nanoseconds fit in 32 bits.\<close>

lemma unat_ms_to_ns:
  "unat (((interval::u32) mod 1000) * 1000000) = (unat interval mod 1000) * 1000000"
proof -
  have m: "unat (interval mod 1000) = unat interval mod 1000"
    by (simp add: unat_mod)
  have "unat interval mod 1000 < 1000" by simp
  then have b: "(unat interval mod 1000) * 1000000 < 2 ^ 32" by simp
  have "unat ((interval mod 1000) * 1000000) = (unat (interval mod 1000) * unat (1000000::u32)) mod 2 ^ 32"
    by (simp add: unat_word_ariths)
  also have "\<dots> = (unat interval mod 1000) * 1000000"
    using b m by simp
  finally show ?thesis .
qed

lemma looped_init_interval_nonzero:
  "(interval \<noteq> 0) = (m_break_s (looped_task_functor_init f interval) > 0 \<or> m_break_ns (looped_task_functor_init f interval) > 0)"
proof -
  have a: "unat interval = 0 \<longleftrightarrow> unat interval div 1000 = 0 \<and> (unat interval mod 1000) * 1000000 = 0"
    by auto
  have s: "(interval div 1000 = 0) = (unat interval div 1000 = 0)"
    by (simp add: unat_div flip: unat_eq_0)
  have n: "(interval mod 1000 * 1000000 = 0) = ((unat interval mod 1000) * 1000000 = 0)"
    using unat_ms_to_ns [of interval] unat_eq_0 [of "interval mod 1000 * 1000000"] by simp
  have "(interval = 0) = (interval div 1000 = 0 \<and> interval mod 1000 * 1000000 = 0)"
    unfolding s n using a unat_eq_0 [of interval] by simp
  then show ?thesis
    unfolding looped_init_break_s looped_init_break_ns word_greater_zero_iff by blast
qed

subsection \<open>The loop\<close>

lemma function_call_env [simp]: "env (snd (function_call f w)) = snd (f (env w))"
  by (simp add: function_call_def split: prod.split)

lemma function_call_events [simp]: "events (snd (function_call f w)) = events w @ [Call]"
  by (simp add: function_call_def split: prod.split)

lemma function_call_fst [simp]: "fst (function_call f w) = fst (f (env w))"
  by (simp add: function_call_def split: prod.split)

lemma function_call_eq:
  "function_call f w = (fst (f (env w)), \<lparr>env = snd (f (env w)), events = events w @ [Call]\<rparr>)"
  by (simp add: function_call_def split: prod.split)

lemma take_break:
  "(if break_s > 0 \<or> break_ns > 0 then thread_sleep break_s break_ns w else thread_yield w)
   = w\<lparr>events := events w @ [break_event break_s break_ns]\<rparr>"
  by (simp add: thread_sleep_def thread_yield_def break_event_def)

text \<open>One iteration of the loop, with the break written as one event.\<close>

lemma looped_while_Suc:
  "looped_while (Suc fuel) f break_s break_ns w =
     (case fst (f (env w)) of
        Inl e \<Rightarrow> (Failed e, \<lparr>env = snd (f (env w)), events = events w @ [Call]\<rparr>)
      | Inr r \<Rightarrow>
          if truthy r then
            looped_while fuel f break_s break_ns
              \<lparr>env = snd (f (env w)), events = events w @ [Call, break_event break_s break_ns]\<rparr>
          else (Done, \<lparr>env = snd (f (env w)), events = events w @ [Call]\<rparr>))"
  unfolding looped_while.simps function_call_eq take_break
  by (simp split: sum.split)

lemma looped_while_true_then_false:
  "returns_true_then_false n f (env w) \<Longrightarrow> n < fuel \<Longrightarrow>
   looped_while fuel f break_s break_ns w =
     (Done, \<lparr>env = env_after (Suc n) f (env w),
             events = events w @ Call # concat (replicate n [break_event break_s break_ns, Call])\<rparr>)"
proof (induction n arbitrary: fuel w)
  case 0
  then obtain k where k: "fuel = Suc k" by (cases fuel) auto
  from 0 show ?case unfolding k looped_while_Suc
    by (auto split: sum.splits)
next
  case (Suc n)
  then obtain k where k: "fuel = Suc k" and nk: "n < k" by (cases fuel) auto
  from Suc.prems(1) obtain r where r: "fst (f (env w)) = Inr r" "truthy r"
    and rest: "returns_true_then_false n f (snd (f (env w)))"
    by (auto split: sum.splits)
  let ?w = "\<lparr>env = snd (f (env w)), events = events w @ [Call, break_event break_s break_ns]\<rparr>"
  have "looped_while fuel f break_s break_ns w = looped_while k f break_s break_ns ?w"
    unfolding k looped_while_Suc using r by simp
  also have "\<dots> = (Done, \<lparr>env = env_after (Suc n) f (env ?w),
             events = events ?w @ Call # concat (replicate n [break_event break_s break_ns, Call])\<rparr>)"
    using rest nk by (intro Suc.IH) simp_all
  finally show ?case by simp
qed

lemma looped_while_true_then_raises:
  "returns_true_then_raises n x f (env w) \<Longrightarrow> n < fuel \<Longrightarrow>
   looped_while fuel f break_s break_ns w =
     (Failed x, \<lparr>env = env_after (Suc n) f (env w),
             events = events w @ Call # concat (replicate n [break_event break_s break_ns, Call])\<rparr>)"
proof (induction n arbitrary: fuel w)
  case 0
  then obtain k where k: "fuel = Suc k" by (cases fuel) auto
  from 0 show ?case unfolding k looped_while_Suc
    by (auto split: sum.splits)
next
  case (Suc n)
  then obtain k where k: "fuel = Suc k" and nk: "n < k" by (cases fuel) auto
  from Suc.prems(1) obtain r where r: "fst (f (env w)) = Inr r" "truthy r"
    and rest: "returns_true_then_raises n x f (snd (f (env w)))"
    by (auto split: sum.splits)
  let ?w = "\<lparr>env = snd (f (env w)), events = events w @ [Call, break_event break_s break_ns]\<rparr>"
  have "looped_while fuel f break_s break_ns w = looped_while k f break_s break_ns ?w"
    unfolding k looped_while_Suc using r by simp
  also have "\<dots> = (Failed x, \<lparr>env = env_after (Suc n) f (env ?w),
             events = events ?w @ Call # concat (replicate n [break_event break_s break_ns, Call])\<rparr>)"
    using rest nk by (intro Suc.IH) simp_all
  finally show ?case by simp
qed

lemma never_returns_false_step:
  assumes "never_returns_false f s"
  shows "\<exists>r. fst (f s) = Inr r \<and> truthy r" and "never_returns_false f (snd (f s))"
proof -
  from assms have "case fst (f (env_after 0 f s)) of Inr r \<Rightarrow> truthy r | Inl e \<Rightarrow> False"
    unfolding never_returns_false_def by blast
  then show "\<exists>r. fst (f s) = Inr r \<and> truthy r" by (auto split: sum.splits)
  show "never_returns_false f (snd (f s))"
    unfolding never_returns_false_def
  proof
    fix n
    from assms have "case fst (f (env_after (Suc n) f s)) of Inr r \<Rightarrow> truthy r | Inl e \<Rightarrow> False"
      unfolding never_returns_false_def by blast
    then show "case fst (f (env_after n f (snd (f s)))) of Inr r \<Rightarrow> truthy r | Inl e \<Rightarrow> False"
      by simp
  qed
qed

lemma looped_while_never_false:
  "never_returns_false f (env w) \<Longrightarrow>
   looped_while fuel f break_s break_ns w =
     (Out_of_fuel, \<lparr>env = env_after fuel f (env w),
             events = events w @ concat (replicate fuel [Call, break_event break_s break_ns])\<rparr>)"
proof (induction fuel arbitrary: w)
  case 0
  show ?case by simp
next
  case (Suc k)
  from never_returns_false_step [OF Suc.prems]
  obtain r where r: "fst (f (env w)) = Inr r" "truthy r"
    and rest: "never_returns_false f (snd (f (env w)))" by blast
  let ?w = "\<lparr>env = snd (f (env w)), events = events w @ [Call, break_event break_s break_ns]\<rparr>"
  have "looped_while (Suc k) f break_s break_ns w = looped_while k f break_s break_ns ?w"
    unfolding looped_while_Suc using r by simp
  also have "\<dots> = (Out_of_fuel, \<lparr>env = env_after k f (env ?w),
             events = events ?w @ concat (replicate k [Call, break_event break_s break_ns])\<rparr>)"
    using rest by (intro Suc.IH) simp
  finally show ?case by simp
qed

text \<open>
  Whatever the callable does and whatever the fuel, the events the loop adds are
  invocations separated by exactly one break.
\<close>

lemma looped_while_breaks:
  "\<exists>new. events (snd (looped_while fuel f break_s break_ns w)) = events w @ new
     \<and> breaks_between (break_event break_s break_ns) new"
proof (induction fuel arbitrary: w)
  case 0
  show ?case by simp
next
  case (Suc k)
  let ?b = "break_event break_s break_ns"
  let ?w = "\<lparr>env = snd (f (env w)), events = events w @ [Call, ?b]\<rparr>"
  show ?case
  proof (cases "fst (f (env w))")
    case (Inl e)
    then have "events (snd (looped_while (Suc k) f break_s break_ns w)) = events w @ [Call]"
      unfolding looped_while_Suc by simp
    moreover have "breaks_between ?b [Call]" by simp
    ultimately show ?thesis by blast
  next
    case (Inr r)
    show ?thesis
    proof (cases "truthy r")
      case False
      with Inr have "events (snd (looped_while (Suc k) f break_s break_ns w)) = events w @ [Call]"
        unfolding looped_while_Suc by simp
      moreover have "breaks_between ?b [Call]" by simp
      ultimately show ?thesis by blast
    next
      case True
      with Inr have eq: "looped_while (Suc k) f break_s break_ns w = looped_while k f break_s break_ns ?w"
        unfolding looped_while_Suc by simp
      from Suc.IH [of ?w] obtain new where
        n: "events (snd (looped_while k f break_s break_ns ?w)) = events ?w @ new"
        and b: "breaks_between ?b new" by blast
      have "events (snd (looped_while (Suc k) f break_s break_ns w)) = events w @ Call # ?b # new"
        using n eq by simp
      moreover have "breaks_between ?b (Call # ?b # new)" using b by simp
      ultimately show ?thesis by blast
    qed
  qed
qed

lemma breaks_between_set: "breaks_between b es \<Longrightarrow> set es \<subseteq> {Call, b}"
  by (induction b es rule: breaks_between.induct) auto

lemma count_calls_true_then_false:
  "b \<noteq> Call \<Longrightarrow> count_calls (Call # concat (replicate n [b, Call])) = n + 1"
  by (induction n) (simp_all add: count_calls_def)

lemma count_calls_never_false:
  "b \<noteq> Call \<Longrightarrow> count_calls (concat (replicate n [Call, b])) = n"
  by (induction n) (simp_all add: count_calls_def)

lemma count_calls_append: "count_calls (xs @ ys) = count_calls xs + count_calls ys"
  by (simp add: count_calls_def)

lemma break_event_not_Call: "break_event break_s break_ns \<noteq> Call"
  by (simp add: break_event_def)

text \<open>
  Fuel only cuts a run short: a loop that has left with some fuel leaves the same way,
  in the same world, with any more.
\<close>

lemma looped_while_more_fuel:
  "looped_while fuel f break_s break_ns w = (c, w') \<Longrightarrow> c \<noteq> Out_of_fuel \<Longrightarrow>
   looped_while (fuel + k) f break_s break_ns w = (c, w')"
proof (induction fuel arbitrary: w)
  case 0
  then show ?case by simp
next
  case (Suc n)
  show ?case
  proof (cases "fst (f (env w))")
    case (Inl e)
    with Suc.prems show ?thesis unfolding add_Suc looped_while_Suc by simp
  next
    case (Inr r)
    with Suc.prems Suc.IH show ?thesis unfolding add_Suc looped_while_Suc
      by (simp split: if_splits)
  qed
qed

subsection \<open>Emptiness and the calls of a wrapper\<close>

lemma default_function_not_empty: "\<not> function_empty default_function"
  by (simp add: default_function_def)

lemma looped_call_Target:
  "task_function this = Target f \<Longrightarrow>
   looped_task_functor_call fuel this w =
     (fst (looped_while fuel f (m_break_s this) (m_break_ns this)
            (if m_break_s this > 0 \<or> m_break_ns this > 0
             then w\<lparr>events := events w @ [Sleep (m_break_s this) (m_break_ns this)]\<rparr> else w)),
      this,
      snd (looped_while fuel f (m_break_s this) (m_break_ns this)
            (if m_break_s this > 0 \<or> m_break_ns this > 0
             then w\<lparr>events := events w @ [Sleep (m_break_s this) (m_break_ns this)]\<rparr> else w)))"
  by (simp add: looped_task_functor_call_def thread_sleep_def split: prod.split)

section \<open>The claims\<close>

text \<open>
  Claim C1. A looped task built with interval 0 around a callable that returns true
  exactly \<open>N\<close> times and then false: the call invokes the callable \<open>N + 1\<close> times,
  yields between the invocations, never sleeps, and returns after the first false.
  Any fuel above \<open>N\<close> is enough.
\<close>

theorem looped_zero_interval_calls:
  fixes f :: "('s, 'e, 'r::default) callable"
  assumes "returns_true_then_false N f (env w)" and "N < fuel"
  shows "looped_task_functor_call fuel (looped_task_functor_init (Target f) 0) w =
           (Done, looped_task_functor_init (Target f) 0,
            \<lparr>env = env_after (Suc N) f (env w),
             events = events w @ Call # concat (replicate N [Yield, Call])\<rparr>)
         \<and> count_calls (Call # concat (replicate N [Yield, Call])) = N + 1
         \<and> (\<forall>e \<in> set (Call # concat (replicate N [Yield, Call])). \<not> is_sleep e)"
proof -
  let ?obj = "looped_task_functor_init (Target f) 0 :: ('s, 'e, 'r) looped_task_functor"
  have fields: "task_function ?obj = Target f" "m_break_s ?obj = 0" "m_break_ns ?obj = 0"
    by (simp_all add: looped_task_functor_init_def task_functor_init_def)
  have b: "break_event 0 0 = Yield" by (simp add: break_event_def)
  have "looped_while fuel f 0 0 w =
     (Done, \<lparr>env = env_after (Suc N) f (env w),
             events = events w @ Call # concat (replicate N [Yield, Call])\<rparr>)"
    using looped_while_true_then_false [OF assms, of 0 0] unfolding b .
  then have run: "looped_task_functor_call fuel ?obj w =
           (Done, ?obj,
            \<lparr>env = env_after (Suc N) f (env w),
             events = events w @ Call # concat (replicate N [Yield, Call])\<rparr>)"
    unfolding looped_task_functor_call_def fields by simp
  have cnt: "count_calls (Call # concat (replicate N [Yield, Call])) = N + 1"
    by (rule count_calls_true_then_false) simp
  have "set (concat (replicate N [Yield, Call])) \<subseteq> {Yield, Call}"
    by (induction N) auto
  then have nosleep: "\<forall>e \<in> set (Call # concat (replicate N [Yield, Call])). \<not> is_sleep e"
    by (auto simp: is_sleep_def)
  from run cnt nosleep show ?thesis by blast
qed

text \<open>
  Claim C1, at a callable that counts down from 2.
\<close>

theorem looped_zero_interval_calls_witness:
  "returns_true_then_false 2 countdown 2 \<and> (2::nat) < 3 \<and>
   looped_task_functor_call 3 (looped_task_functor_init (Target countdown) 0) \<lparr>env = 2, events = []\<rparr> =
     (Done, looped_task_functor_init (Target countdown) 0,
      \<lparr>env = 0, events = [Call, Yield, Call, Yield, Call]\<rparr>)"
proof -
  have h: "returns_true_then_false 2 countdown (env \<lparr>env = 2, events = []\<rparr>)"
    by (simp add: numeral_2_eq_2 countdown_def truthy_def default_bool_def)
  have l: "(2::nat) < 3" by simp
  have e: "env_after (Suc 2) countdown 2 = 0"
    by (simp add: numeral_2_eq_2 countdown_def)
  show ?thesis
    using h l e looped_zero_interval_calls [OF h l] by (simp add: numeral_2_eq_2)
qed

text \<open>
  Claim C2, as amended. The converting constructors copy the priority, respectively the
  two break fields, exactly. The base is built by the default constructor, so the new
  wrapper holds the default callable that returns \<open>Signature()\<close>, never the callable of
  the source, and \<open>empty()\<close> is false on it.
\<close>

theorem cross_type_convert_metadata:
  "m_priority (priority_task_functor_convert p :: ('s, 'e, 'r::default) priority_task_functor)
     = m_priority p
   \<and> task_function (priority_task_functor_convert p :: ('s, 'e, 'r) priority_task_functor)
     = default_function
   \<and> \<not> task_functor_empty (priority_task_functor_convert p :: ('s, 'e, 'r) priority_task_functor)
   \<and> m_break_s (looped_task_functor_convert l :: ('s, 'e, 'r) looped_task_functor) = m_break_s l
   \<and> m_break_ns (looped_task_functor_convert l :: ('s, 'e, 'r) looped_task_functor) = m_break_ns l
   \<and> task_function (looped_task_functor_convert l :: ('s, 'e, 'r) looped_task_functor)
     = default_function
   \<and> \<not> task_functor_empty (looped_task_functor_convert l :: ('s, 'e, 'r) looped_task_functor)"
  by (simp add: priority_task_functor_convert_def looped_task_functor_convert_def
      task_functor_default_def task_functor_init_def task_functor_empty_def
      default_function_not_empty)

text \<open>
  Claim C2 as stated fails: converting a priority task of priority 7 gives a wrapper
  that is not empty.
\<close>

theorem cross_type_convert_counterexample:
  "\<not> (m_priority (priority_task_functor_convert (priority_task_functor_init 7 (Target countdown))
                    :: (nat, string, int) priority_task_functor)
          = m_priority (priority_task_functor_init 7 (Target countdown))
        \<and> task_functor_empty (priority_task_functor_convert (priority_task_functor_init 7 (Target countdown))
                    :: (nat, string, int) priority_task_functor))"
  by (simp add: priority_task_functor_convert_def task_functor_default_def task_functor_init_def
      task_functor_empty_def default_function_def)

text \<open>
  Claim C3, as amended. \<open>empty()\<close> is false for a default-constructed wrapper of each
  kind, since the default argument is a callable; after construction from a function
  object it is true exactly when that function object is empty, hence false for every
  callable; and the wrapper an invocation leaves behind is as empty as before.
\<close>

theorem empty_of_constructed_and_invoked:
  "\<not> task_functor_empty (task_functor_default :: ('s, 'e, 'r::default) task_functor)
   \<and> \<not> task_functor_empty (priority_task_functor_default p :: ('s, 'e, 'r) priority_task_functor)
   \<and> \<not> task_functor_empty (looped_task_functor_default :: ('s, 'e, 'r) looped_task_functor)
   \<and> task_functor_empty (task_functor_init g) = function_empty g
   \<and> task_functor_empty (priority_task_functor_init p g) = function_empty g
   \<and> task_functor_empty (looped_task_functor_init g interval) = function_empty g
   \<and> \<not> function_empty (Target f)
   \<and> task_functor_empty (fst (snd (task_functor_call this w))) = task_functor_empty this
   \<and> task_functor_empty (fst (snd (priority_task_functor_call pthis w))) = task_functor_empty pthis
   \<and> task_functor_empty (fst (snd (looped_task_functor_call fuel lthis w))) = task_functor_empty lthis"
proof -
  have t: "fst (snd (task_functor_call this w)) = this"
    by (simp add: task_functor_call_def split: nullary_function.split prod.split sum.split)
  have p: "fst (snd (priority_task_functor_call pthis w)) = pthis"
    by (simp add: priority_task_functor_call_def split: nullary_function.split prod.split sum.split)
  have l: "fst (snd (looped_task_functor_call fuel lthis w)) = lthis"
    by (simp add: looped_task_functor_call_def split: nullary_function.split prod.split)
  show ?thesis
    unfolding t p l
    by (simp add: task_functor_default_def priority_task_functor_default_def
        looped_task_functor_default_def task_functor_init_def priority_task_functor_init_def
        looped_task_functor_init_def task_functor_empty_def default_function_not_empty Let_def)
qed

text \<open>
  Claim C3 as stated fails: a default-constructed wrapper is not empty.
\<close>

theorem default_constructed_empty_counterexample:
  "\<not> task_functor_empty (task_functor_default :: (nat, string, bool) task_functor)"
  by (simp add: task_functor_default_def task_functor_init_def task_functor_empty_def
      default_function_def)

text \<open>
  Claim C4. \<open>operator<\<close> is the unsigned comparison of the two priorities, whatever
  the wrappers hold; so a wrapper built with the smaller priority compares as less.
\<close>

theorem priority_less_by_priority:
  "priority_task_functor_less this rhs = (m_priority this < m_priority rhs)
   \<and> priority_task_functor_less (priority_task_functor_init p1 f) (priority_task_functor_init p2 g)
       = (unat p1 < unat p2)
   \<and> (p1 < p2 \<longrightarrow>
        priority_task_functor_less (priority_task_functor_init p1 f) (priority_task_functor_init p2 g))"
  by (simp add: priority_task_functor_less_def priority_task_functor_init_def word_less_nat_alt)

text \<open>
  Claim C4, at priorities 3 and 5, a callable on the left and an empty function on the right.
\<close>

theorem priority_less_by_priority_witness:
  "(3::u32) < 5 \<and>
   priority_task_functor_less (priority_task_functor_init 3 (Target countdown))
     (priority_task_functor_init 5 Empty_function)"
proof -
  have h: "(3::u32) < 5" by simp
  note a = priority_less_by_priority [of "priority_task_functor_init 3 (Target countdown)"
      "priority_task_functor_init 5 Empty_function" 3 "Target countdown" 5 Empty_function]
  from a h show ?thesis by blast
qed

text \<open>
  Claim C5. The constructor splits the interval in milliseconds into whole seconds and
  the nanoseconds of the rest; nothing wraps, and the nanoseconds stay below one second.
  An interval of 1500 gives 1 and 500000000.
\<close>

theorem looped_interval_fields:
  "m_break_s (looped_task_functor_init f interval) = interval div 1000
   \<and> m_break_ns (looped_task_functor_init f interval) = (interval mod 1000) * 1000000
   \<and> unat (m_break_s (looped_task_functor_init f interval)) = unat interval div 1000
   \<and> unat (m_break_ns (looped_task_functor_init f interval)) = (unat interval mod 1000) * 1000000
   \<and> unat (m_break_ns (looped_task_functor_init f interval)) < 1000000000
   \<and> m_break_s (looped_task_functor_init f 1500) = 1
   \<and> m_break_ns (looped_task_functor_init f 1500) = 500000000"
proof -
  have s: "unat (m_break_s (looped_task_functor_init f interval)) = unat interval div 1000"
    by (simp add: looped_init_break_s unat_div)
  have ns: "unat (m_break_ns (looped_task_functor_init f interval)) = (unat interval mod 1000) * 1000000"
    by (simp only: looped_init_break_ns unat_ms_to_ns)
  have "unat interval mod 1000 < 1000" by simp
  then have "(unat interval mod 1000) * 1000000 < 1000000000" by simp
  with ns have b: "unat (m_break_ns (looped_task_functor_init f interval)) < 1000000000"
    by simp
  have c: "m_break_s (looped_task_functor_init f 1500) = 1"
    "m_break_ns (looped_task_functor_init f 1500) = 500000000"
    by (simp_all add: looped_init_break_s looped_init_break_ns)
  from s ns b c show ?thesis
    by (simp only: looped_init_break_s looped_init_break_ns simp_thms)
qed

text \<open>
  Claim C6. A wrapper built from an empty function object invokes nothing and neither
  sleeps nor yields: the world is the same after the call, and the looped call returns
  whatever the interval. But \<open>task_functor\<close> and \<open>priority_task_functor\<close> reach the end
  of \<open>operator()\<close> with no \<open>return\<close> statement, which is not the return of \<open>Signature()\<close>.
\<close>

theorem empty_invocation_completes_without_result:
  "task_functor_call (task_functor_init Empty_function) w
     = (No_return_statement, task_functor_init Empty_function, w)
   \<and> priority_task_functor_call (priority_task_functor_init p Empty_function) w
     = (No_return_statement, priority_task_functor_init p Empty_function, w)
   \<and> looped_task_functor_call fuel (looped_task_functor_init Empty_function interval) w
     = (Done, looped_task_functor_init Empty_function interval, w)
   \<and> fst (task_functor_call (task_functor_init Empty_function) w) \<noteq> Returns default"
  by (simp add: task_functor_call_def priority_task_functor_call_def looped_task_functor_call_def
      task_functor_init_def priority_task_functor_init_def looped_task_functor_init_def Let_def)

text \<open>
  Claim C7. For a looped task that holds a callable, whatever the callable does and
  however long the loop has run: with a nonzero interval the events of the call start
  with a sleep of the two break fields, and after every invocation that is followed by
  another comes exactly one such sleep, and no yield; with a zero interval there is no
  sleep at all, and exactly one yield between two invocations. The break fields of a
  constructed task are nonzero exactly when its interval is.
\<close>

theorem looped_break_discipline:
  fixes lthis :: "('s, 'e, 'r::default) looped_task_functor"
  assumes "task_function lthis = Target f"
  shows "(0 < m_break_s lthis \<or> 0 < m_break_ns lthis \<longrightarrow>
            (\<exists>new. events (snd (snd (looped_task_functor_call fuel lthis w)))
                      = events w @ Sleep (m_break_s lthis) (m_break_ns lthis) # new
                  \<and> breaks_between (Sleep (m_break_s lthis) (m_break_ns lthis)) new
                  \<and> Yield \<notin> set new))
       \<and> (m_break_s lthis = 0 \<and> m_break_ns lthis = 0 \<longrightarrow>
            (\<exists>new. events (snd (snd (looped_task_functor_call fuel lthis w))) = events w @ new
                  \<and> breaks_between Yield new
                  \<and> (\<forall>e \<in> set new. \<not> is_sleep e)))
       \<and> ((interval \<noteq> 0) =
            (0 < m_break_s (looped_task_functor_init g interval)
             \<or> 0 < m_break_ns (looped_task_functor_init g interval)))"
proof (intro conjI impI)
  let ?s = "m_break_s lthis" and ?ns = "m_break_ns lthis"
  {
    assume nz: "0 < ?s \<or> 0 < ?ns"
    let ?w = "w\<lparr>events := events w @ [Sleep ?s ?ns]\<rparr>"
    from nz have b: "break_event ?s ?ns = Sleep ?s ?ns" by (auto simp: break_event_def)
    from looped_while_breaks [of fuel f ?s ?ns ?w] obtain new where
      n: "events (snd (looped_while fuel f ?s ?ns ?w)) = events ?w @ new"
      and bb: "breaks_between (Sleep ?s ?ns) new" unfolding b by blast
    from n nz have "events (snd (snd (looped_task_functor_call fuel lthis w)))
                      = events w @ Sleep ?s ?ns # new"
      unfolding looped_call_Target [OF assms] by auto
    moreover from breaks_between_set [OF bb] have "Yield \<notin> set new" by auto
    ultimately show "\<exists>new. events (snd (snd (looped_task_functor_call fuel lthis w)))
                      = events w @ Sleep ?s ?ns # new
                  \<and> breaks_between (Sleep ?s ?ns) new \<and> Yield \<notin> set new"
      using bb by blast
  }
  {
    assume z: "?s = 0 \<and> ?ns = 0"
    then have b: "break_event ?s ?ns = Yield" by (simp add: break_event_def)
    from looped_while_breaks [of fuel f ?s ?ns w] obtain new where
      n: "events (snd (looped_while fuel f ?s ?ns w)) = events w @ new"
      and bb: "breaks_between Yield new" unfolding b by blast
    from n z have "events (snd (snd (looped_task_functor_call fuel lthis w))) = events w @ new"
      unfolding looped_call_Target [OF assms] by simp
    moreover from breaks_between_set [OF bb] have "\<forall>e \<in> set new. \<not> is_sleep e"
      by (auto simp: is_sleep_def)
    ultimately show "\<exists>new. events (snd (snd (looped_task_functor_call fuel lthis w))) = events w @ new
                  \<and> breaks_between Yield new \<and> (\<forall>e \<in> set new. \<not> is_sleep e)"
      using bb by blast
  }
  show "(interval \<noteq> 0) =
            (0 < m_break_s (looped_task_functor_init g interval)
             \<or> 0 < m_break_ns (looped_task_functor_init g interval))"
    by (rule looped_init_interval_nonzero)
qed

text \<open>
  Claim C7, at a callable that counts down from 1, once with an interval of 1500 and
  once with an interval of 0.
\<close>

theorem looped_break_discipline_witness:
  "task_function (looped_task_functor_init (Target countdown) 1500) = Target countdown
   \<and> 0 < m_break_s (looped_task_functor_init (Target countdown) 1500)
   \<and> task_function (looped_task_functor_init (Target countdown) 0) = Target countdown
   \<and> m_break_s (looped_task_functor_init (Target countdown) 0) = 0
   \<and> m_break_ns (looped_task_functor_init (Target countdown) 0) = 0
   \<and> events (snd (snd (looped_task_functor_call 5
               (looped_task_functor_init (Target countdown) 1500) \<lparr>env = 1, events = []\<rparr>)))
       = [Sleep 1 500000000, Call, Sleep 1 500000000, Call]
   \<and> events (snd (snd (looped_task_functor_call 5
               (looped_task_functor_init (Target countdown) 0) \<lparr>env = 1, events = []\<rparr>)))
       = [Call, Yield, Call]"
proof -
  let ?a = "looped_task_functor_init (Target countdown) 1500"
  let ?z = "looped_task_functor_init (Target countdown) 0"
  let ?w = "\<lparr>env = 1::nat, events = []\<rparr>"
  have ta: "task_function ?a = Target countdown" and tz: "task_function ?z = Target countdown"
    by (simp_all add: looped_task_functor_init_def task_functor_init_def Let_def)
  have fa: "0 < m_break_s ?a" and fz: "m_break_s ?z = 0" "m_break_ns ?z = 0"
    by (simp_all add: looped_init_break_s looped_init_break_ns)
  have va: "m_break_s ?a = 1" "m_break_ns ?a = 500000000"
    by (simp_all add: looped_init_break_s looped_init_break_ns)
  have ea: "events (snd (snd (looped_task_functor_call 5 ?a ?w)))
       = [Sleep 1 500000000, Call, Sleep 1 500000000, Call]"
    unfolding looped_call_Target [OF ta] va
    by (simp add: looped_while_Suc break_event_def numeral_eq_Suc countdown_def truthy_def
        default_bool_def del: looped_while.simps)
  have ez: "events (snd (snd (looped_task_functor_call 5 ?z ?w))) = [Call, Yield, Call]"
    unfolding looped_call_Target [OF tz] fz
    by (simp add: looped_while_Suc break_event_def numeral_eq_Suc countdown_def truthy_def
        default_bool_def del: looped_while.simps)
  from looped_break_discipline [OF ta, of 5 ?w] fa ea
  have "breaks_between (Sleep (m_break_s ?a) (m_break_ns ?a)) [Call, Sleep 1 500000000, Call]"
    by auto
  moreover from looped_break_discipline [OF tz, of 5 ?w] fz ez
  have "breaks_between Yield [Call, Yield, Call]"
    by auto
  ultimately show ?thesis using ta tz fa fz ea ez by simp
qed

text \<open>
  Claim C8. If every invocation of the callable returns true, the looped call has not
  returned after any number of iterations: for every fuel the loop is still running, and
  it has invoked the callable that many times.
\<close>

theorem looped_never_returns:
  fixes lthis :: "('s, 'e, 'r::default) looped_task_functor"
  assumes "task_function lthis = Target f" and "never_returns_false f (env w)"
  shows "fst (looped_task_functor_call fuel lthis w) = Out_of_fuel
       \<and> count_calls (events (snd (snd (looped_task_functor_call fuel lthis w))))
           = count_calls (events w) + fuel"
proof -
  let ?s = "m_break_s lthis" and ?ns = "m_break_ns lthis"
  let ?w = "if ?s > 0 \<or> ?ns > 0 then w\<lparr>events := events w @ [Sleep ?s ?ns]\<rparr> else w"
  have e: "env ?w = env w" by simp
  have c: "count_calls (events ?w) = count_calls (events w)"
    by (simp add: count_calls_def)
  from assms(2) have "never_returns_false f (env ?w)" unfolding e .
  from looped_while_never_false [OF this, of fuel ?s ?ns]
  have run: "looped_while fuel f ?s ?ns ?w =
     (Out_of_fuel, \<lparr>env = env_after fuel f (env ?w),
             events = events ?w @ concat (replicate fuel [Call, break_event ?s ?ns])\<rparr>)" .
  have "count_calls (events ?w @ concat (replicate fuel [Call, break_event ?s ?ns]))
          = count_calls (events w) + fuel"
    unfolding count_calls_append c
    by (simp add: count_calls_never_false [OF break_event_not_Call])
  with run show ?thesis
    unfolding looped_call_Target [OF assms(1)] by simp
qed

text \<open>
  Claim C8, at a callable that always returns true, after four iterations.
\<close>

theorem looped_never_returns_witness:
  "task_function (looped_task_functor_init (Target always_true) 0) = Target always_true
   \<and> never_returns_false always_true 0
   \<and> fst (looped_task_functor_call 4 (looped_task_functor_init (Target always_true) 0)
            \<lparr>env = 0, events = []\<rparr>) = Out_of_fuel
   \<and> count_calls (events (snd (snd (looped_task_functor_call 4
            (looped_task_functor_init (Target always_true) 0) \<lparr>env = 0, events = []\<rparr>)))) = 4"
proof -
  let ?z = "looped_task_functor_init (Target always_true) 0"
  let ?w = "\<lparr>env = 0::nat, events = []\<rparr>"
  have t: "task_function ?z = Target always_true"
    by (simp add: looped_task_functor_init_def task_functor_init_def Let_def)
  have n: "never_returns_false always_true (env ?w)"
    by (simp add: never_returns_false_def always_true_def truthy_def default_bool_def)
  have c: "count_calls (events ?w) = 0" by (simp add: count_calls_def)
  from looped_never_returns [OF t n, of 4] t n c show ?thesis by simp
qed

text \<open>
  Claim C9. A failure raised by the callable leaves each of the three operators as it
  was raised, and the wrapper is the same after it. For the looped task the failure may
  come after any number of invocations that returned true.
\<close>

theorem callable_failure_propagates:
  fixes this :: "('s, 'e, 'r::default) task_functor"
    and pthis :: "('s, 'e, 'r) priority_task_functor"
    and lthis :: "('s, 'e, 'r) looped_task_functor"
  shows "(task_function this = Target f \<and> fst (f (env w)) = Inl x \<longrightarrow>
            task_functor_call this w =
              (Throws x, this, \<lparr>env = snd (f (env w)), events = events w @ [Call]\<rparr>))
       \<and> (task_function pthis = Target f \<and> fst (f (env w)) = Inl x \<longrightarrow>
            priority_task_functor_call pthis w =
              (Throws x, pthis, \<lparr>env = snd (f (env w)), events = events w @ [Call]\<rparr>))
       \<and> (task_function lthis = Target f \<and> returns_true_then_raises N x f (env w) \<and> N < fuel \<longrightarrow>
            fst (looped_task_functor_call fuel lthis w) = Failed x
            \<and> fst (snd (looped_task_functor_call fuel lthis w)) = lthis)"
proof (intro conjI impI)
  assume "task_function this = Target f \<and> fst (f (env w)) = Inl x"
  then show "task_functor_call this w =
              (Throws x, this, \<lparr>env = snd (f (env w)), events = events w @ [Call]\<rparr>)"
    by (simp add: task_functor_call_def function_call_eq)
next
  assume "task_function pthis = Target f \<and> fst (f (env w)) = Inl x"
  then show "priority_task_functor_call pthis w =
              (Throws x, pthis, \<lparr>env = snd (f (env w)), events = events w @ [Call]\<rparr>)"
    by (simp add: priority_task_functor_call_def function_call_eq)
next
  assume a: "task_function lthis = Target f \<and> returns_true_then_raises N x f (env w) \<and> N < fuel"
  let ?s = "m_break_s lthis" and ?ns = "m_break_ns lthis"
  let ?w = "if ?s > 0 \<or> ?ns > 0 then w\<lparr>events := events w @ [Sleep ?s ?ns]\<rparr> else w"
  have e: "env ?w = env w" by simp
  from a have r: "returns_true_then_raises N x f (env ?w)" and l: "N < fuel"
    unfolding e by simp_all
  from looped_while_true_then_raises [OF r l, of ?s ?ns]
  have "fst (looped_while fuel f ?s ?ns ?w) = Failed x" by simp
  with a show "fst (looped_task_functor_call fuel lthis w) = Failed x"
    by (simp add: looped_call_Target)
  from a show "fst (snd (looped_task_functor_call fuel lthis w)) = lthis"
    by (simp add: looped_call_Target)
qed

text \<open>
  Claim C9, at a callable that raises when its counter is at zero.
\<close>

theorem callable_failure_propagates_witness:
  "task_function (task_functor_init (Target fails_at_zero)) = Target fails_at_zero
   \<and> fst (fails_at_zero 0) = Inl ''boom''
   \<and> task_functor_call (task_functor_init (Target fails_at_zero)) \<lparr>env = 0, events = []\<rparr>
       = (Throws ''boom'', task_functor_init (Target fails_at_zero), \<lparr>env = 0, events = [Call]\<rparr>)
   \<and> task_function (priority_task_functor_init 9 (Target fails_at_zero)) = Target fails_at_zero
   \<and> priority_task_functor_call (priority_task_functor_init 9 (Target fails_at_zero))
         \<lparr>env = 0, events = []\<rparr>
       = (Throws ''boom'', priority_task_functor_init 9 (Target fails_at_zero),
          \<lparr>env = 0, events = [Call]\<rparr>)
   \<and> task_function (looped_task_functor_init (Target fails_at_zero) 1500) = Target fails_at_zero
   \<and> returns_true_then_raises 2 ''boom'' fails_at_zero 2
   \<and> (2::nat) < 3
   \<and> fst (looped_task_functor_call 3 (looped_task_functor_init (Target fails_at_zero) 1500)
            \<lparr>env = 2, events = []\<rparr>) = Failed ''boom''"
proof -
  let ?t = "task_functor_init (Target fails_at_zero)"
  let ?p = "priority_task_functor_init 9 (Target fails_at_zero)"
  let ?l = "looped_task_functor_init (Target fails_at_zero) 1500"
  let ?w0 = "\<lparr>env = 0::nat, events = []\<rparr>"
  let ?w2 = "\<lparr>env = 2::nat, events = []\<rparr>"
  have t: "task_function ?t = Target fails_at_zero"
    and p: "task_function ?p = Target fails_at_zero"
    and l: "task_function ?l = Target fails_at_zero"
    by (simp_all add: task_functor_init_def priority_task_functor_init_def
        looped_task_functor_init_def Let_def)
  have f: "fst (fails_at_zero (env ?w0)) = Inl ''boom''" "snd (fails_at_zero 0) = 0"
    by (simp_all add: fails_at_zero_def)
  have r: "returns_true_then_raises 2 ''boom'' fails_at_zero (env ?w2)"
    by (simp add: numeral_2_eq_2 fails_at_zero_def truthy_def default_bool_def)
  have k: "(2::nat) < 3" by simp
  note a = callable_failure_propagates [of ?t fails_at_zero ?w0 "''boom''" ?p ?l 2 3]
  note b = callable_failure_propagates [of ?t fails_at_zero ?w2 "''boom''" ?p ?l 2 3]
  from a t f have 1: "task_functor_call ?t ?w0 = (Throws ''boom'', ?t, \<lparr>env = 0, events = [Call]\<rparr>)"
    by simp
  from a p f have 2: "priority_task_functor_call ?p ?w0
       = (Throws ''boom'', ?p, \<lparr>env = 0, events = [Call]\<rparr>)"
    by simp
  from b l r k have 3: "fst (looped_task_functor_call 3 ?l ?w2) = Failed ''boom''"
    by blast
  from 1 2 3 t p l f r k show ?thesis by simp
qed

text \<open>
  Claim C10. The assignment from a wrapper of another result type writes the priority,
  respectively the two break fields, and nothing else: the held function object and
  with it \<open>empty()\<close> stay as they were.
\<close>

theorem cross_type_assign_frame:
  "task_function (priority_task_functor_assign p src) = task_function p
   \<and> task_functor_empty (priority_task_functor_assign p src) = task_functor_empty p
   \<and> m_priority (priority_task_functor_assign p src) = m_priority src
   \<and> task_function (looped_task_functor_assign l lsrc) = task_function l
   \<and> task_functor_empty (looped_task_functor_assign l lsrc) = task_functor_empty l
   \<and> m_break_s (looped_task_functor_assign l lsrc) = m_break_s lsrc
   \<and> m_break_ns (looped_task_functor_assign l lsrc) = m_break_ns lsrc"
  by (simp add: priority_task_functor_assign_def looped_task_functor_assign_def
      task_functor_empty_def)

end
